theory Spec2Isabelle
  imports Main
begin

section \<open>SafeSched: the availability-resolution core of \<^verbatim>\<open>app.py\<close>\<close>

text \<open>
  The development embeds the scheduling core of \<^verbatim>\<open>src/app.py\<close>: the busy-interval query
  \<^verbatim>\<open>get_free_busy_for_participant\<close>, the slot finder \<^verbatim>\<open>compute_candidate_slots\<close>, the
  body of the \<^verbatim>\<open>Finalize & Book\<close> handler and the participant rule of \<^verbatim>\<open>parse_request\<close>.

  Modelling decisions.
  \<^item> A \<^verbatim>\<open>datetime\<close> is the number of microseconds of its wall-clock fields since
    0001-01-01 00:00:00, an \<open>int\<close>. All timestamps carry the same \<^verbatim>\<open>tzinfo\<close> (the single
    configured zone of the program), so Python compares and adds on the wall-clock fields;
    \<^verbatim>\<open>pytz\<close> arithmetic does not renormalise. Python's \<^verbatim>\<open>date\<close> ordinals run from 1 to
    3652059 (\<^verbatim>\<open>datetime.max\<close> is 9999-12-31 23:59:59.999999); arithmetic that leaves this
    range raises \<^verbatim>\<open>OverflowError\<close>.
  \<^item> A \<^verbatim>\<open>timedelta\<close> is a number of microseconds; its constructor raises
    \<^verbatim>\<open>OverflowError\<close> when the day count leaves \<open>\<plusminus>999999999\<close>.
  \<^item> \<^verbatim>\<open>st.session_state.sim_calendars\<close> is a map from names to lists of pairs, passed
    explicitly; the handler returns the updated state.
  \<^item> The \<^verbatim>\<open>while\<close> loop of the slot finder does not terminate for a zero step, so it is a
    partial function into \<open>option\<close>: \<open>None\<close> is a run that never returns.
\<close>

subsection \<open>Dates and durations\<close>

datatype py_error = OverflowError | ValueError

type_synonym datetime = int
type_synonym timedelta = int

abbreviation US_PER_MINUTE :: int where "US_PER_MINUTE \<equiv> 60000000"
abbreviation US_PER_HOUR :: int where "US_PER_HOUR \<equiv> 3600000000"
abbreviation US_PER_DAY :: int where "US_PER_DAY \<equiv> 86400000000"
abbreviation MAXORDINAL :: int where "MAXORDINAL \<equiv> 3652059"

text \<open>\<^verbatim>\<open>timedelta(minutes=m)\<close> for an integer \<^verbatim>\<open>m\<close>.\<close>

definition timedelta_minutes :: "int \<Rightarrow> py_error + timedelta" where
  "timedelta_minutes m =
     (if - 999999999 \<le> (m * US_PER_MINUTE) div US_PER_DAY
         \<and> (m * US_PER_MINUTE) div US_PER_DAY \<le> 999999999
      then Inr (m * US_PER_MINUTE) else Inl OverflowError)"

text \<open>\<^verbatim>\<open>t + d\<close> for a datetime \<^verbatim>\<open>t\<close> and a timedelta \<^verbatim>\<open>d\<close>.\<close>

definition dt_add :: "datetime \<Rightarrow> timedelta \<Rightarrow> py_error + datetime" where
  "dt_add t d =
     (if 0 \<le> t + d \<and> t + d < MAXORDINAL * US_PER_DAY then Inr (t + d)
      else Inl OverflowError)"

text \<open>\<^verbatim>\<open>t.hour\<close>.\<close>

definition hour :: "datetime \<Rightarrow> int" where
  "hour t = (t div US_PER_HOUR) mod 24"

text \<open>\<^verbatim>\<open>t.replace(hour=h, minute=0, second=0, microsecond=0)\<close>.\<close>

definition replace_hour :: "datetime \<Rightarrow> int \<Rightarrow> py_error + datetime" where
  "replace_hour t h =
     (if 0 \<le> h \<and> h \<le> 23 then Inr ((t div US_PER_DAY) * US_PER_DAY + h * US_PER_HOUR)
      else Inl ValueError)"

subsection \<open>The simulated calendars\<close>

type_synonym interval = "datetime \<times> datetime"
type_synonym calendars = "string \<Rightarrow> interval list option"

text \<open>\<^verbatim>\<open>st.session_state.sim_calendars.get(name, [])\<close>.\<close>

definition calendar_get :: "calendars \<Rightarrow> string \<Rightarrow> interval list" where
  "calendar_get cals name = (case cals name of None \<Rightarrow> [] | Some busy \<Rightarrow> busy)"

text \<open>The body of the \<^verbatim>\<open>for s,e in busy\<close> loop of \<^verbatim>\<open>get_free_busy_for_participant\<close>.\<close>

fun clip_intervals :: "interval list \<Rightarrow> datetime \<Rightarrow> datetime \<Rightarrow> interval list" where
  "clip_intervals [] window_start window_end = []"
| "clip_intervals ((s, e) # busy) window_start window_end =
     (if e < window_start \<or> s > window_end then clip_intervals busy window_start window_end
      else (max s window_start, min e window_end) # clip_intervals busy window_start window_end)"

definition get_free_busy_for_participant ::
  "calendars \<Rightarrow> string \<Rightarrow> datetime \<Rightarrow> datetime \<Rightarrow> interval list" where
  "get_free_busy_for_participant cals name window_start window_end =
     clip_intervals (calendar_get cals name) window_start window_end"

subsection \<open>The slot finder\<close>

record meeting_request =
  participants :: "string list"
  duration_mins :: int
  date_from :: datetime
  date_to :: datetime
  title :: string

text \<open>
  The inner \<^verbatim>\<open>for p in parsed['participants'] + ['You']\<close> loop: the value of \<^verbatim>\<open>conflict\<close>
  when the loop is left, by \<^verbatim>\<open>break\<close> at the first participant with a non-empty busy list
  or at the end of the list.
\<close>

fun any_conflict :: "calendars \<Rightarrow> string list \<Rightarrow> datetime \<Rightarrow> datetime \<Rightarrow> bool" where
  "any_conflict cals [] s e = False"
| "any_conflict cals (p # ps) s e =
     (if get_free_busy_for_participant cals p s e \<noteq> [] then True
      else any_conflict cals ps s e)"

text \<open>The working-hours test of line 146.\<close>

definition in_work_hours :: "int \<Rightarrow> int \<Rightarrow> datetime \<Rightarrow> datetime \<Rightarrow> bool" where
  "in_work_hours work_start work_end cur cur_end \<longleftrightarrow>
     hour cur \<ge> work_start \<and> hour cur_end \<le> work_end"

text \<open>
  Lines 146 to 155, one pass of the loop body before the cursor moves: the slot is appended
  to \<^verbatim>\<open>candidates\<close> when it lies inside the working hours and no participant has a busy
  interval in it.
\<close>

definition consider_slot ::
  "calendars \<Rightarrow> string list \<Rightarrow> int \<Rightarrow> int \<Rightarrow> datetime \<Rightarrow> datetime \<Rightarrow> datetime list
     \<Rightarrow> datetime list" where
  "consider_slot cals ps work_start work_end cur cur_end candidates =
     (if in_work_hours work_start work_end cur cur_end then
        (if \<not> any_conflict cals (ps @ [''You'']) cur cur_end then candidates @ [cur]
         else candidates)
      else candidates)"

text \<open>
  The \<^verbatim>\<open>while cur + duration <= end\<close> loop. \<^verbatim>\<open>cur + duration\<close> is evaluated in the loop
  condition first and may raise; the step \<^verbatim>\<open>timedelta(minutes=slot_step_mins)\<close> is built
  at the end of each iteration, before it is added to the cursor.
\<close>

partial_function (option) slots_loop ::
  "calendars \<Rightarrow> string list \<Rightarrow> timedelta \<Rightarrow> datetime \<Rightarrow> int \<Rightarrow> int \<Rightarrow> int
     \<Rightarrow> datetime \<Rightarrow> datetime list \<Rightarrow> (py_error + datetime list) option" where
  "slots_loop cals ps duration end slot_step_mins work_start work_end cur candidates =
     (case dt_add cur duration of
        Inl err \<Rightarrow> Some (Inl err)
      | Inr cur_end \<Rightarrow>
          if cur_end \<le> end then
            (case timedelta_minutes slot_step_mins of
               Inl err \<Rightarrow> Some (Inl err)
             | Inr step \<Rightarrow>
                 (case dt_add cur step of
                    Inl err \<Rightarrow> Some (Inl err)
                  | Inr cur' \<Rightarrow>
                      slots_loop cals ps duration end slot_step_mins work_start work_end cur'
                        (consider_slot cals ps work_start work_end cur cur_end candidates)))
          else Some (Inr candidates))"

declare slots_loop.simps [code]

definition compute_candidate_slots ::
  "calendars \<Rightarrow> meeting_request \<Rightarrow> int \<Rightarrow> int \<Rightarrow> int \<Rightarrow> (py_error + datetime list) option" where
  "compute_candidate_slots cals parsed slot_step_mins work_start work_end =
     (case timedelta_minutes (duration_mins parsed) of
        Inl err \<Rightarrow> Some (Inl err)
      | Inr duration \<Rightarrow>
          (case replace_hour (date_from parsed) work_start of
             Inl err \<Rightarrow> Some (Inl err)
           | Inr cur \<Rightarrow>
               slots_loop cals (participants parsed) duration (date_to parsed)
                 slot_step_mins work_start work_end cur []))"

subsection \<open>The \<^verbatim>\<open>Finalize & Book\<close> handler\<close>

record booking =
  booking_title :: string
  booking_slot :: datetime
  booking_participants :: "string list"
  booking_link :: string
  booking_created_at :: datetime

record session_state =
  bookings :: "booking list"
  sim_calendars :: calendars

text \<open>\<^verbatim>\<open>st.session_state.sim_calendars.setdefault(p,[]).append((s,e))\<close>.\<close>

definition add_busy :: "calendars \<Rightarrow> string \<Rightarrow> datetime \<Rightarrow> datetime \<Rightarrow> calendars" where
  "add_busy cals p s e = cals(p \<mapsto> calendar_get cals p @ [(s, e)])"

text \<open>The loop of lines 274 and 275 over \<^verbatim>\<open>parsed['participants'] + ['You']\<close>.\<close>

fun mark_busy :: "calendars \<Rightarrow> string list \<Rightarrow> datetime \<Rightarrow> datetime \<Rightarrow> calendars" where
  "mark_busy cals [] s e = cals"
| "mark_busy cals (p # ps) s e = mark_busy (add_busy cals p s e) ps s e"

text \<open>
  The body of \<^verbatim>\<open>if st.button('Finalize & Book')\<close>, lines 261 to 275, for the selected
  \<^verbatim>\<open>slot\<close>. The conferencing link (random) and the creation time (the clock) are inputs.
  The booking is stored with its slot as a timestamp (the source stores its ISO rendering).
  The booking is appended to the log before the slot end is computed, so an overflow there
  leaves the log extended and the calendars untouched: the result is the state reached and
  the exception raised, if any.
\<close>

definition finalize_book ::
  "session_state \<Rightarrow> meeting_request \<Rightarrow> datetime \<Rightarrow> string \<Rightarrow> datetime
     \<Rightarrow> session_state \<times> py_error option" where
  "finalize_book ss parsed slot link now =
     (let booking = \<lparr>booking_title = title parsed, booking_slot = slot,
                      booking_participants = participants parsed @ [''You''],
                      booking_link = link, booking_created_at = now\<rparr>;
          ss1 = ss\<lparr>bookings := bookings ss @ [booking]\<rparr>
      in case timedelta_minutes (duration_mins parsed) of
           Inl err \<Rightarrow> (ss1, Some err)
         | Inr duration \<Rightarrow>
             (case dt_add slot duration of
                Inl err \<Rightarrow> (ss1, Some err)
              | Inr slot_end \<Rightarrow>
                  (ss1\<lparr>sim_calendars :=
                         mark_busy (sim_calendars ss1) (participants parsed @ [''You''])
                           slot slot_end\<rparr>, None)))"

subsection \<open>The participant rule of \<^verbatim>\<open>parse_request\<close>\<close>

text \<open>
  Lines 57 to 66 and 110 to 112. Text is ASCII: a \<open>char\<close> is a code point below 128, on which
  \<^verbatim>\<open>str.lower\<close>, \<^verbatim>\<open>str.title\<close>, \<^verbatim>\<open>str.strip\<close> and the classes \<^verbatim>\<open>[a-z]\<close> and \<^verbatim>\<open>\s\<close> are as
  below. The other fields of the returned dictionary are computed independently of the
  participants and are not needed here.
\<close>

definition is_upper :: "char \<Rightarrow> bool" where
  "is_upper c \<longleftrightarrow> 65 \<le> (of_char c :: nat) \<and> (of_char c :: nat) \<le> 90"

definition is_lower :: "char \<Rightarrow> bool" where
  "is_lower c \<longleftrightarrow> 97 \<le> (of_char c :: nat) \<and> (of_char c :: nat) \<le> 122"

definition to_lower :: "char \<Rightarrow> char" where
  "to_lower c = (if is_upper c then char_of ((of_char c :: nat) + 32) else c)"

definition to_upper :: "char \<Rightarrow> char" where
  "to_upper c = (if is_lower c then char_of ((of_char c :: nat) - 32) else c)"

text \<open>\<^verbatim>\<open>str.isspace\<close> on ASCII, which is also the class \<^verbatim>\<open>\s\<close> of a \<^verbatim>\<open>str\<close> pattern.\<close>

definition is_space :: "char \<Rightarrow> bool" where
  "is_space c \<longleftrightarrow> (9 \<le> (of_char c :: nat) \<and> (of_char c :: nat) \<le> 13)
     \<or> (28 \<le> (of_char c :: nat) \<and> (of_char c :: nat) \<le> 32)"

text \<open>\<^verbatim>\<open>text.lower()\<close>.\<close>

definition lower :: "string \<Rightarrow> string" where
  "lower s = map to_lower s"

text \<open>The character class \<^verbatim>\<open>[a-z,\s]\<close>.\<close>

definition name_char :: "char \<Rightarrow> bool" where
  "name_char c \<longleftrightarrow> is_lower c \<or> c = CHR '','' \<or> is_space c"

text \<open>
  \<^verbatim>\<open>re.search(r'with ([a-z,\s]+)', s)\<close>: group 1 of the leftmost match, if there is one.
  At a position where \<^verbatim>\<open>with \<close> is followed by a character of the class the greedy
  \<^verbatim>\<open>+\<close> takes the longest run.
\<close>

fun search_with :: "string \<Rightarrow> string option" where
  "search_with [] = None"
| "search_with (c # s) =
     (if take 5 (c # s) = ''with '' \<and> takeWhile name_char (drop 5 (c # s)) \<noteq> []
      then Some (takeWhile name_char (drop 5 (c # s)))
      else search_with s)"

text \<open>\<^verbatim>\<open>ptext.replace('and', ',')\<close>: every occurrence, left to right, without overlap.\<close>

fun replace_and :: "string \<Rightarrow> string" where
  "replace_and (a # b # c # s) =
     (if [a, b, c] = ''and'' then CHR '','' # replace_and s
      else a # replace_and (b # c # s))"
| "replace_and s = s"

text \<open>\<^verbatim>\<open>ptext.split(',')\<close>.\<close>

fun split_comma :: "string \<Rightarrow> string list" where
  "split_comma [] = [[]]"
| "split_comma (c # s) =
     (if c = CHR '','' then [] # split_comma s
      else (case split_comma s of
              [] \<Rightarrow> [[c]]
            | p # ps \<Rightarrow> (c # p) # ps))"

text \<open>\<^verbatim>\<open>p.strip()\<close>.\<close>

definition strip :: "string \<Rightarrow> string" where
  "strip s = rev (dropWhile is_space (rev (dropWhile is_space s)))"

text \<open>
  \<^verbatim>\<open>p.title()\<close>: a letter is put in upper case when the character before it is not a
  letter, in lower case otherwise; the flag is \<^verbatim>\<open>previous_is_cased\<close>.
\<close>

fun title_from :: "bool \<Rightarrow> string \<Rightarrow> string" where
  "title_from previous_is_cased [] = []"
| "title_from previous_is_cased (c # s) =
     (if is_lower c \<or> is_upper c
      then (if previous_is_cased then to_lower c else to_upper c) # title_from True s
      else c # title_from False s)"

definition str_title :: "string \<Rightarrow> string" where
  "str_title s = title_from False s"

text \<open>The \<^verbatim>\<open>participants\<close> entry of the dictionary that \<^verbatim>\<open>parse_request(text)\<close> returns.\<close>

definition parse_request_participants :: "string \<Rightarrow> string list" where
  "parse_request_participants text =
     (let found =
            (case search_with (lower text) of
               None \<Rightarrow> []
             | Some ptext \<Rightarrow>
                 map (\<lambda>p. str_title (strip p))
                   (filter (\<lambda>p. strip p \<noteq> []) (split_comma (replace_and ptext))))
      in if found = [] then [''Priya'', ''Alex''] else found)"

subsection \<open>Timestamps of the examples\<close>

text \<open>
  The timestamp of hour \<open>h\<close>, minute \<open>m\<close> on the day with index \<open>d\<close> (days since 0001-01-01).
  Day 739256 is Monday 2025-01-06.
\<close>

definition on_day :: "int \<Rightarrow> int \<Rightarrow> int \<Rightarrow> datetime" where
  "on_day d h m = d * US_PER_DAY + h * US_PER_HOUR + m * US_PER_MINUTE"

text \<open>
  Scenario 1 of the specification on 2025-01-06: \<open>You\<close> is busy from 09:00 to 10:00, the
  request asks for 30 minutes between 09:00 and 18:00 and names no participant.
\<close>

definition scenario1_calendars :: calendars where
  "scenario1_calendars = Map.empty(''You'' \<mapsto> [(on_day 739256 9 0, on_day 739256 10 0)])"

definition scenario1_request :: meeting_request where
  "scenario1_request = \<lparr>participants = [], duration_mins = 30, date_from = on_day 739256 9 0,
     date_to = on_day 739256 18 0, title = ''Meeting''\<rparr>"

text \<open>The session of scenario 1 before any booking.\<close>

definition scenario1_state :: session_state where
  "scenario1_state = \<lparr>bookings = [], sim_calendars = scenario1_calendars\<rparr>"

section \<open>Properties\<close>

subsection \<open>Date arithmetic and the loop\<close>

lemma dt_add_Inr: "dt_add t d = Inr u \<Longrightarrow> u = t + d"
  by (simp add: dt_add_def split: if_splits)

lemma timedelta_minutes_Inr: "timedelta_minutes m = Inr d \<Longrightarrow> d = m * 60000000"
  by (simp add: timedelta_minutes_def split: if_splits)

text \<open>
  Induction over a run of the loop that returns: the three ways of leaving it (an exception,
  the loop condition failing) and one more iteration.
\<close>

lemma slots_loop_run_induct [consumes 1, case_names raises leaves iterates]:
  assumes run: "slots_loop cals ps duration endt slot_step_mins work_start work_end cur candidates = Some r"
    and raises: "\<And>cur candidates err.
        dt_add cur duration = Inl err
        \<or> (\<exists>cur_end. dt_add cur duration = Inr cur_end \<and> cur_end \<le> endt
              \<and> (timedelta_minutes slot_step_mins = Inl err
                  \<or> (\<exists>step. timedelta_minutes slot_step_mins = Inr step
                        \<and> dt_add cur step = Inl err)))
        \<Longrightarrow> P cur candidates (Inl err)"
    and leaves: "\<And>cur candidates cur_end.
        dt_add cur duration = Inr cur_end \<Longrightarrow> \<not> cur_end \<le> endt \<Longrightarrow> P cur candidates (Inr candidates)"
    and iterates: "\<And>cur candidates cur_end step cur' r.
        dt_add cur duration = Inr cur_end \<Longrightarrow> cur_end \<le> endt \<Longrightarrow>
        timedelta_minutes slot_step_mins = Inr step \<Longrightarrow> dt_add cur step = Inr cur' \<Longrightarrow>
        P cur' (consider_slot cals ps work_start work_end cur cur_end candidates) r \<Longrightarrow>
        P cur candidates r"
  shows "P cur candidates r"
proof -
  let ?Q = "\<lambda>cals' ps' duration' endt' slot_step_mins' work_start' work_end' cur candidates r.
      cals' = cals \<and> ps' = ps \<and> duration' = duration \<and> endt' = endt
      \<and> slot_step_mins' = slot_step_mins \<and> work_start' = work_start \<and> work_end' = work_end
      \<longrightarrow> P cur candidates r"
  have "?Q cals ps duration endt slot_step_mins work_start work_end cur candidates r"
  proof (rule slots_loop.raw_induct[where P = ?Q, OF _ run], goal_cases)
    case (1 loop cals' ps' duration' endt' slot_step_mins' work_start' work_end' cur candidates r)
    show ?case
    proof (intro impI, elim conjE)
      assume eqs: "cals' = cals" "ps' = ps" "duration' = duration" "endt' = endt"
        "slot_step_mins' = slot_step_mins" "work_start' = work_start" "work_end' = work_end"
      note body = "1"(2)[unfolded eqs]
      note IH = "1"(1)[of cals ps duration endt slot_step_mins work_start work_end]
      show "P cur candidates r"
      proof (cases "dt_add cur duration")
        case (Inl err)
        with body raises[of cur err candidates] show ?thesis by auto
      next
        case cur_end: (Inr cur_end)
        show ?thesis
        proof (cases "cur_end \<le> endt")
          case False
          with body cur_end leaves[of cur cur_end candidates] show ?thesis by auto
        next
          case True
          show ?thesis
          proof (cases "timedelta_minutes slot_step_mins")
            case (Inl err)
            with body cur_end True raises[of cur err candidates] show ?thesis by auto
          next
            case step: (Inr step)
            show ?thesis
            proof (cases "dt_add cur step")
              case (Inl err)
              with body cur_end True step raises[of cur err candidates] show ?thesis by auto
            next
              case (Inr cur')
              with body cur_end True step
              have "loop cals ps duration endt slot_step_mins work_start work_end cur'
                      (consider_slot cals ps work_start work_end cur cur_end candidates) = Some r"
                by simp
              from IH[OF this] have "P cur' (consider_slot cals ps work_start work_end cur cur_end candidates) r"
                by simp
              with cur_end True step Inr show ?thesis by (rule iterates)
            qed
          qed
        qed
      qed
    qed
  qed
  then show ?thesis by simp
qed

text \<open>
  Two runs of the loop from the same cursor, over different calendars or participants, stay
  related as long as one pass of the body keeps the candidate lists related; the second run
  returns whenever the first does.
\<close>

lemma slots_loop_simulation:
  assumes run: "slots_loop cals ps duration endt slot_step_mins work_start work_end cur candidates = Some r"
    and step: "\<And>c ce a a'. R a a' \<Longrightarrow>
        R (consider_slot cals ps work_start work_end c ce a)
          (consider_slot cals' ps' work_start work_end c ce a')"
    and start: "R candidates candidates'"
  shows "\<exists>r'. slots_loop cals' ps' duration endt slot_step_mins work_start work_end cur candidates' = Some r'
         \<and> rel_sum (=) R r r'"
  using run start
proof (induction arbitrary: candidates' rule: slots_loop_run_induct)
  case (raises cur candidates err)
  then show ?case
    by (subst slots_loop.simps) auto
next
  case (leaves cur candidates cur_end)
  then show ?case
    by (subst slots_loop.simps) auto
next
  case (iterates cur candidates cur_end step cur' r)
  from iterates.prems have "R (consider_slot cals ps work_start work_end cur cur_end candidates)
          (consider_slot cals' ps' work_start work_end cur cur_end candidates')"
    by (rule step)
  from iterates.IH[OF this] iterates.hyps show ?case
    by (subst slots_loop.simps) simp
qed

text \<open>With a positive step the loop always returns, with a list or with an exception.\<close>

lemma slots_loop_terminates:
  assumes "0 < slot_step_mins"
  shows "\<exists>r. slots_loop cals ps duration endt slot_step_mins work_start work_end cur candidates = Some r"
proof (induction "nat (endt - duration - cur + 1)" arbitrary: cur candidates rule: less_induct)
  case less
  show ?case
  proof (cases "\<exists>cur_end step cur'. dt_add cur duration = Inr cur_end \<and> cur_end \<le> endt \<and>
        timedelta_minutes slot_step_mins = Inr step \<and> dt_add cur step = Inr cur'")
    case True
    then obtain cur_end step cur' where h: "dt_add cur duration = Inr cur_end" "cur_end \<le> endt"
        "timedelta_minutes slot_step_mins = Inr step" "dt_add cur step = Inr cur'" by blast
    have "cur_end = cur + duration" "cur' = cur + step" "step = slot_step_mins * 60000000"
      using h by (auto dest: dt_add_Inr timedelta_minutes_Inr)
    with assms h(2) have "nat (endt - duration - cur' + 1) < nat (endt - duration - cur + 1)"
      by simp
    from less[OF this] h show ?thesis
      by (subst slots_loop.simps) simp
  next
    case False
    then show ?thesis
      by (subst slots_loop.simps) (auto split: sum.splits)
  qed
qed

subsection \<open>What an accepted slot satisfies\<close>

lemma consider_slot_cases:
  "consider_slot cals ps ws we cur ce acc = acc
   \<or> (consider_slot cals ps ws we cur ce acc = acc @ [cur]
        \<and> in_work_hours ws we cur ce \<and> \<not> any_conflict cals (ps @ [''You'']) cur ce)"
  by (simp add: consider_slot_def)

lemma slots_loop_accepted:
  assumes "slots_loop cals ps duration endt slot_step_mins work_start work_end cur candidates = Some r"
    and "r = Inr cs" and "c \<in> set cs"
  shows "c \<in> set candidates
     \<or> (in_work_hours work_start work_end c (c + duration)
         \<and> \<not> any_conflict cals (ps @ [''You'']) c (c + duration)
         \<and> c + duration \<le> endt)"
  using assms
proof (induction rule: slots_loop_run_induct)
  case (raises cur candidates err)
  then show ?case by simp
next
  case (leaves cur candidates cur_end)
  then show ?case by simp
next
  case (iterates cur candidates cur_end step cur' r)
  have ce: "cur_end = cur + duration"
    using iterates.hyps(1) by (rule dt_add_Inr)
  from iterates.IH [OF iterates.prems]
  consider "c \<in> set (consider_slot cals ps work_start work_end cur cur_end candidates)"
    | "in_work_hours work_start work_end c (c + duration)
         \<and> \<not> any_conflict cals (ps @ [''You'']) c (c + duration) \<and> c + duration \<le> endt"
    by fast
  then show ?case
  proof cases
    case 1
    with consider_slot_cases [of cals ps work_start work_end cur cur_end candidates]
    have "c \<in> set candidates \<or> (c = cur \<and> in_work_hours work_start work_end cur cur_end
        \<and> \<not> any_conflict cals (ps @ [''You'']) cur cur_end)"
      by auto
    with ce iterates.hyps(2) show ?thesis by auto
  next
    case 2
    then show ?thesis by simp
  qed
qed

lemma compute_candidate_slots_run:
  assumes "compute_candidate_slots cals parsed slot_step_mins work_start work_end = Some r"
  shows "(\<exists>err. r = Inl err) \<or>
     (\<exists>cur. replace_hour (date_from parsed) work_start = Inr cur
        \<and> timedelta_minutes (duration_mins parsed) = Inr (duration_mins parsed * 60000000)
        \<and> slots_loop cals (participants parsed) (duration_mins parsed * 60000000) (date_to parsed)
             slot_step_mins work_start work_end cur [] = Some r)"
proof (cases "timedelta_minutes (duration_mins parsed)")
  case (Inl err)
  with assms show ?thesis by (auto simp add: compute_candidate_slots_def)
next
  case d: (Inr duration)
  then have dd: "duration = duration_mins parsed * 60000000" by (rule timedelta_minutes_Inr)
  show ?thesis
  proof (cases "replace_hour (date_from parsed) work_start")
    case (Inl err)
    with assms d show ?thesis by (auto simp add: compute_candidate_slots_def)
  next
    case (Inr cur)
    with assms d dd show ?thesis by (auto simp add: compute_candidate_slots_def)
  qed
qed

text \<open>
  Claim C3: every candidate start returned by the slot finder satisfies
  \<open>work_start \<le> start.hour\<close>, \<open>(start + duration).hour \<le> work_end\<close> and
  \<open>start + duration \<le> date_to\<close>, for every request, configuration and state of the calendars.
\<close>

theorem window_containment:
  assumes "compute_candidate_slots cals parsed slot_step_mins work_start work_end = Some (Inr cs)"
    and "c \<in> set cs"
  shows "work_start \<le> hour c
     \<and> hour (c + duration_mins parsed * 60000000) \<le> work_end
     \<and> c + duration_mins parsed * 60000000 \<le> date_to parsed"
proof -
  from compute_candidate_slots_run [OF assms(1)]
  obtain cur where "slots_loop cals (participants parsed) (duration_mins parsed * 60000000)
      (date_to parsed) slot_step_mins work_start work_end cur [] = Some (Inr cs)"
    by auto
  from slots_loop_accepted [OF this refl assms(2)]
  show ?thesis by (simp add: in_work_hours_def)
qed

theorem window_containment_witness:
  "9 \<le> hour (on_day 739256 10 30)
     \<and> hour (on_day 739256 10 30 + 30 * 60000000) \<le> 18
     \<and> on_day 739256 10 30 + 30 * 60000000 \<le> on_day 739256 18 0"
proof -
  have run: "compute_candidate_slots scenario1_calendars scenario1_request 30 9 18
      = Some (Inr (map (\<lambda>i. on_day 739256 10 30 + i * 1800000000) [0..14]))"
    by code_simp
  have mem: "on_day 739256 10 30 \<in> set (map (\<lambda>i. on_day 739256 10 30 + i * 1800000000) [0..14])"
    by code_simp
  from window_containment [OF run mem] show ?thesis
    by (simp add: scenario1_request_def)
qed

subsection \<open>More busy intervals, fewer candidates\<close>

lemma clip_intervals_append:
  "clip_intervals (xs @ ys) ws we = clip_intervals xs ws we @ clip_intervals ys ws we"
  by (induction xs ws we rule: clip_intervals.induct) simp_all

lemma calendar_get_add_busy:
  "calendar_get (add_busy cals p s e) q
     = (if q = p then calendar_get cals p @ [(s, e)] else calendar_get cals q)"
  by (simp add: add_busy_def calendar_get_def)

lemma busy_after_add_busy:
  "get_free_busy_for_participant cals q ws we \<noteq> [] \<Longrightarrow>
   get_free_busy_for_participant (add_busy cals p s e) q ws we \<noteq> []"
  by (auto simp add: get_free_busy_for_participant_def calendar_get_add_busy clip_intervals_append)

lemma any_conflict_add_busy:
  "any_conflict cals ps ws we \<Longrightarrow> any_conflict (add_busy cals p s e) ps ws we"
  by (induction ps) (auto dest: busy_after_add_busy split: if_splits)

lemma compute_candidate_slots_unfold:
  assumes "timedelta_minutes (duration_mins parsed) = Inr duration"
    and "replace_hour (date_from parsed) work_start = Inr cur"
  shows "compute_candidate_slots cals parsed slot_step_mins work_start work_end
     = slots_loop cals (participants parsed) duration (date_to parsed)
         slot_step_mins work_start work_end cur []"
  using assms by (simp add: compute_candidate_slots_def)

text \<open>
  Claim C8: appending a busy interval to the calendar of any participant \<open>p\<close> can only remove
  candidates. When the slot finder returns \<open>cs\<close> before the interval is added, it returns
  after it as well, and every candidate it returns then is among \<open>cs\<close>. The interval is
  arbitrary, so it holds in particular for the intervals that overlap the window.
\<close>

theorem conflict_monotonicity:
  assumes "compute_candidate_slots cals parsed slot_step_mins work_start work_end = Some (Inr cs)"
  shows "\<exists>cs'. compute_candidate_slots (add_busy cals p s e) parsed slot_step_mins work_start work_end
           = Some (Inr cs') \<and> set cs' \<subseteq> set cs"
proof -
  let ?R = "\<lambda>a a'. set a' \<subseteq> set a"
  from compute_candidate_slots_run [OF assms]
  obtain cur where cur: "replace_hour (date_from parsed) work_start = Inr cur"
    and dur: "timedelta_minutes (duration_mins parsed) = Inr (duration_mins parsed * 60000000)"
    and run: "slots_loop cals (participants parsed) (duration_mins parsed * 60000000)
      (date_to parsed) slot_step_mins work_start work_end cur [] = Some (Inr cs)"
    by auto
  have step: "?R (consider_slot cals (participants parsed) work_start work_end c ce a)
          (consider_slot (add_busy cals p s e) (participants parsed) work_start work_end c ce a')"
    if "?R a a'" for c ce a a'
    using that any_conflict_add_busy [of cals "participants parsed @ [''You'']" c ce p s e]
    by (auto simp add: consider_slot_def)
  from slots_loop_simulation [where R = ?R, OF run step, of "[]"]
  obtain r' where r': "slots_loop (add_busy cals p s e) (participants parsed)
      (duration_mins parsed * 60000000) (date_to parsed) slot_step_mins work_start work_end cur []
      = Some r'" and rel: "rel_sum (=) ?R (Inr cs) r'"
    by auto
  from rel obtain cs' where "r' = Inr cs'" "set cs' \<subseteq> set cs"
    by (cases r') auto
  with r' compute_candidate_slots_unfold [OF dur cur] show ?thesis by simp
qed

theorem conflict_monotonicity_witness:
  "\<exists>cs'. compute_candidate_slots
            (add_busy scenario1_calendars ''You'' (on_day 739256 12 0) (on_day 739256 13 0))
            scenario1_request 30 9 18 = Some (Inr cs')
        \<and> set cs' \<subseteq> set (map (\<lambda>i. on_day 739256 10 30 + i * 1800000000) [0..14])"
proof -
  have run: "compute_candidate_slots scenario1_calendars scenario1_request 30 9 18
      = Some (Inr (map (\<lambda>i. on_day 739256 10 30 + i * 1800000000) [0..14]))"
    by code_simp
  from conflict_monotonicity [OF run] show ?thesis .
qed

subsection \<open>Participants without a calendar\<close>

lemma unknown_participant_no_busy:
  "cals p = None \<Longrightarrow> get_free_busy_for_participant cals p ws we = []"
  by (simp add: get_free_busy_for_participant_def calendar_get_def)

lemma any_conflict_removeAll:
  "cals p = None \<Longrightarrow>
   any_conflict cals (removeAll p ps @ qs) s e = any_conflict cals (ps @ qs) s e"
  by (induction ps) (auto simp add: unknown_participant_no_busy)

lemma slots_loop_cong:
  assumes conf: "\<And>c ce. any_conflict cals (ps' @ [''You'']) c ce = any_conflict cals (ps @ [''You'']) c ce"
  shows "slots_loop cals ps' duration endt slot_step_mins work_start work_end cur candidates
       = slots_loop cals ps duration endt slot_step_mins work_start work_end cur candidates"
proof -
  have step: "consider_slot cals ps' work_start work_end c ce a
      = consider_slot cals ps work_start work_end c ce a" for c ce a
    by (simp add: consider_slot_def conf)
  have one: "slots_loop cals qs' duration endt slot_step_mins work_start work_end cur candidates = Some r"
    if run: "slots_loop cals qs duration endt slot_step_mins work_start work_end cur candidates = Some r"
      and eq: "\<And>c ce a. consider_slot cals qs work_start work_end c ce a
         = consider_slot cals qs' work_start work_end c ce a"
    for qs qs' r
  proof -
    from slots_loop_simulation [where R = "(=)", OF run, of cals qs' candidates]
    obtain r' where "slots_loop cals qs' duration endt slot_step_mins work_start work_end cur candidates
        = Some r'" and "rel_sum (=) (=) r r'"
      using eq by auto
    then show ?thesis by (simp add: sum.rel_eq)
  qed
  show ?thesis
  proof (cases "slots_loop cals ps duration endt slot_step_mins work_start work_end cur candidates")
    case (Some r)
    with one [of ps r ps'] step show ?thesis by simp
  next
    case None
    show ?thesis
    proof (cases "slots_loop cals ps' duration endt slot_step_mins work_start work_end cur candidates")
      case (Some r)
      with one [of ps' r ps] step None show ?thesis by simp
    next
      case None': None
      with None show ?thesis by simp
    qed
  qed
qed

text \<open>
  Claim C9: for a name with no entry in the calendars the busy query returns the empty list,
  and the slot finder treats that participant as free in every window: dropping the name from
  the request changes nothing in what the slot finder does (its result, its exception or its
  not returning).
\<close>

theorem unknown_participant_is_free:
  assumes "cals p = None"
  shows "get_free_busy_for_participant cals p window_start window_end = []
     \<and> compute_candidate_slots cals parsed slot_step_mins work_start work_end
       = compute_candidate_slots cals (parsed\<lparr>participants := removeAll p (participants parsed)\<rparr>)
           slot_step_mins work_start work_end"
proof -
  have eq: "slots_loop cals (removeAll p (participants parsed)) duration endt slot_step_mins
           work_start work_end cur []
      = slots_loop cals (participants parsed) duration endt slot_step_mins work_start work_end cur []"
    for duration endt cur
    using assms by (intro slots_loop_cong any_conflict_removeAll)
  have "compute_candidate_slots cals parsed slot_step_mins work_start work_end
       = compute_candidate_slots cals (parsed\<lparr>participants := removeAll p (participants parsed)\<rparr>)
           slot_step_mins work_start work_end"
    by (simp add: compute_candidate_slots_def eq split: sum.splits)
  with assms show ?thesis by (simp add: unknown_participant_no_busy)
qed

theorem unknown_participant_is_free_witness:
  "get_free_busy_for_participant scenario1_calendars ''Zed'' (on_day 739256 9 0) (on_day 739256 9 30) = []
     \<and> compute_candidate_slots scenario1_calendars
           (scenario1_request\<lparr>participants := [''Zed'']\<rparr>) 30 9 18
       = compute_candidate_slots scenario1_calendars scenario1_request 30 9 18"
proof -
  have unknown: "scenario1_calendars ''Zed'' = None"
    by (simp add: scenario1_calendars_def)
  from unknown unknown_participant_is_free [of scenario1_calendars "''Zed''"
      "on_day 739256 9 0" "on_day 739256 9 30"
      "scenario1_request\<lparr>participants := [''Zed'']\<rparr>" 30 9 18]
  show ?thesis by (simp add: scenario1_request_def)
qed

subsection \<open>The working-hours check\<close>

lemma hour_at:
  assumes "0 \<le> h" "h \<le> 23" "0 \<le> k" "k < 3600000000"
  shows "hour (D * 86400000000 + h * 3600000000 + k) = h"
proof -
  have "D * 86400000000 + h * 3600000000 + k = k + (D * 24 + h) * (3600000000::int)"
    by (simp add: distrib_right)
  moreover have "(k + (D * 24 + h) * 3600000000) div (3600000000::int) = (D * 24 + h) + k div 3600000000"
    by (rule div_mult_self1) simp
  moreover have "k div (3600000000::int) = 0"
    using assms(3,4) by simp
  moreover have "(D * 24 + h) mod (24::int) = h"
    using assms(1,2) by simp
  ultimately show ?thesis
    by (simp only: hour_def add_0_right)
qed

lemma hour_next_day:
  assumes "0 \<le> k" "k < 3600000000"
  shows "hour (D * 86400000000 + (23 + 1) * 3600000000 + k) = 0"
proof -
  have "D * 86400000000 + (23 + 1) * 3600000000 + k = (D + 1) * 86400000000 + 0 * 3600000000 + k"
    by (simp add: distrib_right)
  moreover have "hour ((D + 1) * 86400000000 + 0 * 3600000000 + k) = 0"
    using assms by (intro hour_at) simp_all
  ultimately show ?thesis by (simp only:)
qed

text \<open>
  Claim C4, as stated: a slot that ends at \<open>workEndHour:01\<close> is classified invalid. It is not:
  on 2025-01-06, with the default hours 9 to 18, the slot from 17:30 to 18:01 passes the
  check of line 146, because the hour component of 18:01 is 18.
\<close>

theorem end_one_minute_past_work_end_is_valid: "in_work_hours 9 18 (on_day 739256 17 30) (on_day 739256 18 1)"
  by (simp add: in_work_hours_def hour_def on_day_def)

text \<open>
  Claim C4, amended: the check compares only the hour component of the slot end with
  \<open>work_end\<close>, whatever the duration. For a slot that starts inside the working hours and
  \<open>work_end\<close> between 0 and 23, an end anywhere in the hour \<open>work_end\<close> (from \<open>work_end:00\<close> to the
  last microsecond of \<open>work_end:59\<close>) is valid; an end anywhere in the following hour is invalid
  when \<open>work_end\<close> is at most 22, and valid when \<open>work_end\<close> is 23, because the following hour is
  then hour 0 of the next day.
\<close>

theorem work_hours_compare_hour_component:
  assumes "work_start \<le> hour cur" "0 \<le> work_end" "work_end \<le> 23" "0 \<le> k" "k < 3600000000"
  shows "in_work_hours work_start work_end cur (D * 86400000000 + work_end * 3600000000 + k)
       \<and> (in_work_hours work_start work_end cur (D * 86400000000 + (work_end + 1) * 3600000000 + k)
            \<longleftrightarrow> work_end = 23)"
proof -
  have a: "hour (D * 86400000000 + work_end * 3600000000 + k) = work_end"
    using assms by (intro hour_at) simp_all
  have b: "hour (D * 86400000000 + (work_end + 1) * 3600000000 + k) = (if work_end = 23 then 0 else work_end + 1)"
  proof (cases "work_end = 23")
    case True
    from assms(4,5) have "hour (D * 86400000000 + (23 + 1) * 3600000000 + k) = 0"
      by (rule hour_next_day)
    with True show ?thesis by (simp only: if_True refl)
  next
    case False
    with assms have "hour (D * 86400000000 + (work_end + 1) * 3600000000 + k) = work_end + 1"
      by (intro hour_at) simp_all
    with False show ?thesis by simp
  qed
  show ?thesis using assms(1) by (simp only: in_work_hours_def a b) simp
qed

theorem work_hours_compare_hour_component_witness:
  "in_work_hours 9 18 (on_day 739256 17 30) (on_day 739256 18 0)
   \<and> \<not> in_work_hours 9 18 (on_day 739256 17 30) (on_day 739256 19 0)
   \<and> in_work_hours 9 23 (on_day 739256 23 0) (on_day 739257 0 30)"
proof -
  have h: "(9::int) \<le> hour (on_day 739256 17 30)"
    by (simp add: on_day_def hour_def)
  have h': "(9::int) \<le> hour (on_day 739256 23 0)"
    by (simp add: on_day_def hour_def)
  have e: "on_day 739256 18 0 = 739256 * 86400000000 + 18 * 3600000000 + 0"
    "on_day 739256 19 0 = 739256 * 86400000000 + (18 + 1) * 3600000000 + 0"
    "on_day 739257 0 30 = 739256 * 86400000000 + (23 + 1) * 3600000000 + 1800000000"
    by (simp_all add: on_day_def)
  from work_hours_compare_hour_component [OF h, of 18 0 739256]
  have "in_work_hours 9 18 (on_day 739256 17 30) (on_day 739256 18 0)
      \<and> \<not> in_work_hours 9 18 (on_day 739256 17 30) (on_day 739256 19 0)"
    unfolding e by simp
  moreover from work_hours_compare_hour_component [OF h', of 23 1800000000 739256]
  have "in_work_hours 9 23 (on_day 739256 23 0) (on_day 739257 0 30)"
    unfolding e by simp
  ultimately show ?thesis by simp
qed

subsection \<open>The anchor of the scan\<close>

text \<open>
  Claim C10: for some request whose window starts later in the day than the start of the
  working hours, the slot finder returns a candidate strictly before the window start. With
  the window from 15:00 to 18:00 on 2025-01-06 and empty calendars, the scan starts at 09:00
  of that day and 09:00 is returned.
\<close>

theorem candidate_before_window_start: "\<exists>cals parsed cs c. 9 < hour (date_from parsed)
    \<and> compute_candidate_slots cals parsed 30 9 18 = Some (Inr cs) \<and> c \<in> set cs \<and> c < date_from parsed"
proof -
  let ?parsed = "\<lparr>participants = [], duration_mins = 30, date_from = on_day 739256 15 0,
                  date_to = on_day 739256 18 0, title = ''Meeting''\<rparr>"
  let ?cs = "map (\<lambda>i. on_day 739256 9 0 + i * 1800000000) [0..17]"
  have a: "9 < hour (date_from ?parsed)" by (simp add: hour_def on_day_def)
  have b: "compute_candidate_slots Map.empty ?parsed 30 9 18 = Some (Inr ?cs)"
    by code_simp
  have c: "on_day 739256 9 0 \<in> set ?cs" by code_simp
  have d: "on_day 739256 9 0 < date_from ?parsed" by (simp add: on_day_def)
  have "9 < hour (date_from ?parsed)
    \<and> compute_candidate_slots Map.empty ?parsed 30 9 18 = Some (Inr ?cs) \<and> on_day 739256 9 0 \<in> set ?cs \<and> on_day 739256 9 0 < date_from ?parsed"
    by (intro conjI a b c d)
  then show ?thesis by (intro exI)
qed

subsection \<open>Participants of a request\<close>

text \<open>
  Claim C6 says that the text after \<open>with\<close> is split on the word \<open>and\<close>, not on an occurrence of
  \<open>and\<close> inside a name. The source replaces every occurrence: \<open>Meet with Sandy\<close> yields the two
  participants \<open>S\<close> and \<open>Y\<close>.
\<close>

theorem participants_and_inside_name: "parse_request_participants ''Meet with Sandy'' = [''S'', ''Y'']"
  by code_simp

subsection \<open>The commit\<close>

text \<open>
  The handler appends the interval once for every occurrence of a name in
  \<^verbatim>\<open>parsed['participants'] + ['You']\<close>, after the intervals the calendar already holds.
\<close>

lemma calendar_get_mark_busy:
  "calendar_get (mark_busy cals ps s e) p = calendar_get cals p @ replicate (count_list ps p) (s, e)"
proof (induction ps arbitrary: cals)
  case Nil
  show ?case by simp
next
  case (Cons q ps)
  show ?case
    by (simp add: Cons.IH calendar_get_add_busy replicate_app_Cons_same)
qed

lemma finalize_book_success:
  assumes "snd (finalize_book ss parsed slot link now) = None"
  shows "timedelta_minutes (duration_mins parsed) = Inr (duration_mins parsed * 60000000)
     \<and> dt_add slot (duration_mins parsed * 60000000) = Inr (slot + duration_mins parsed * 60000000)
     \<and> sim_calendars (fst (finalize_book ss parsed slot link now))
         = mark_busy (sim_calendars ss) (participants parsed @ [''You'']) slot
             (slot + duration_mins parsed * 60000000)"
proof (cases "timedelta_minutes (duration_mins parsed)")
  case (Inl err)
  with assms show ?thesis by (simp add: finalize_book_def Let_def)
next
  case d: (Inr d)
  then have dd: "d = duration_mins parsed * 60000000" by (rule timedelta_minutes_Inr)
  show ?thesis
  proof (cases "dt_add slot d")
    case (Inl err)
    with assms d show ?thesis by (simp add: finalize_book_def Let_def)
  next
    case (Inr slot_end)
    then have "slot_end = slot + d" by (rule dt_add_Inr)
    with Inr d dd show ?thesis by (simp add: finalize_book_def Let_def)
  qed
qed

lemma busy_interval_found:
  assumes "(s, e) \<in> set busy" and "\<not> e < ws" and "\<not> s > we"
  shows "clip_intervals busy ws we \<noteq> []"
  using assms by (induction busy ws we rule: clip_intervals.induct) auto

lemma any_conflict_member:
  "p \<in> set ps \<Longrightarrow> get_free_busy_for_participant cals p s e \<noteq> [] \<Longrightarrow> any_conflict cals ps s e"
  by (induction ps) auto

lemma candidates_conflict_free:
  assumes "compute_candidate_slots cals parsed slot_step_mins work_start work_end = Some (Inr cs)"
    and "c \<in> set cs"
  shows "\<not> any_conflict cals (participants parsed @ [''You'']) c (c + duration_mins parsed * 60000000)"
proof -
  from compute_candidate_slots_run [OF assms(1)]
  obtain cur where "slots_loop cals (participants parsed) (duration_mins parsed * 60000000)
      (date_to parsed) slot_step_mins work_start work_end cur [] = Some (Inr cs)"
    by auto
  from slots_loop_accepted [OF this refl assms(2)]
  show ?thesis by simp
qed

lemma timedelta_minutes_Inl: "timedelta_minutes m = Inl err \<Longrightarrow> err = OverflowError"
  by (simp add: timedelta_minutes_def split: if_splits)

lemma dt_add_Inl: "dt_add t d = Inl err \<Longrightarrow> err = OverflowError"
  by (simp add: dt_add_def split: if_splits)

lemma finalize_book_outcome:
  "snd (finalize_book ss parsed slot link now)
     = (case timedelta_minutes (duration_mins parsed) of
          Inl err \<Rightarrow> Some err
        | Inr d \<Rightarrow> (case dt_add slot d of Inl err \<Rightarrow> Some err | Inr e \<Rightarrow> None))"
  by (simp add: finalize_book_def Let_def split: sum.splits)

text \<open>
  Claim C5: after a commit of the slot \<open>c\<close> that raised nothing, for a request whose duration
  is not negative, the calendar of every name in \<^verbatim>\<open>parsed['participants'] + ['You']\<close> is the
  calendar it had before followed by the interval from \<open>c\<close> to \<open>c + duration\<close> (once for each
  occurrence of the name), every other calendar is unchanged, and no list that the slot finder
  returns for the same request on the new calendars contains \<open>c\<close>, whatever the step and the
  working hours.
\<close>

theorem commit_books_and_excludes:
  assumes ok: "snd (finalize_book ss parsed c link now) = None"
    and dur: "0 \<le> duration_mins parsed"
  shows "(\<forall>p \<in> set (participants parsed @ [''You'']).
            \<exists>k > 0. calendar_get (sim_calendars (fst (finalize_book ss parsed c link now))) p
              = calendar_get (sim_calendars ss) p
                @ replicate k (c, c + duration_mins parsed * 60000000))
       \<and> (\<forall>p. p \<notin> set (participants parsed @ [''You'']) \<longrightarrow>
            calendar_get (sim_calendars (fst (finalize_book ss parsed c link now))) p
              = calendar_get (sim_calendars ss) p)
       \<and> (\<forall>slot_step_mins work_start work_end cs.
            compute_candidate_slots (sim_calendars (fst (finalize_book ss parsed c link now)))
              parsed slot_step_mins work_start work_end = Some (Inr cs) \<longrightarrow> c \<notin> set cs)"
proof -
  let ?ps = "participants parsed @ [''You'']"
  let ?e = "c + duration_mins parsed * 60000000"
  let ?cals = "sim_calendars (fst (finalize_book ss parsed c link now))"
  from finalize_book_success [OF ok]
  have cals: "?cals = mark_busy (sim_calendars ss) ?ps c ?e" by simp
  have get: "calendar_get ?cals p = calendar_get (sim_calendars ss) p @ replicate (count_list ?ps p) (c, ?e)" for p
    unfolding cals by (rule calendar_get_mark_busy)
  have a: "\<forall>p \<in> set ?ps. \<exists>k > 0. calendar_get ?cals p = calendar_get (sim_calendars ss) p @ replicate k (c, ?e)"
  proof
    fix p assume "p \<in> set ?ps"
    then have "count_list ?ps p \<noteq> 0" by (metis count_list_0_iff)
    then have "0 < count_list ?ps p" by (rule neq0_conv [THEN iffD1])
    with get [of p] show "\<exists>k > 0. calendar_get ?cals p = calendar_get (sim_calendars ss) p @ replicate k (c, ?e)"
      by blast
  qed
  have b: "\<forall>p. p \<notin> set ?ps \<longrightarrow> calendar_get ?cals p = calendar_get (sim_calendars ss) p"
  proof (intro allI impI)
    fix p assume "p \<notin> set ?ps"
    then have "count_list ?ps p = 0" by (metis count_list_0_iff)
    with get [of p] show "calendar_get ?cals p = calendar_get (sim_calendars ss) p" by simp
  qed
  have you: "(c, ?e) \<in> set (calendar_get ?cals ''You'')"
  proof -
    have "0 < count_list ?ps ''You''" by simp
    then obtain k where "count_list ?ps ''You'' = Suc k" by (cases "count_list ?ps ''You''") simp_all
    with get [of "''You''"] show ?thesis by simp
  qed
  from dur have "\<not> ?e < c" "\<not> c > ?e" by simp_all
  with you have "get_free_busy_for_participant ?cals ''You'' c ?e \<noteq> []"
    unfolding get_free_busy_for_participant_def by (rule busy_interval_found)
  then have conflict: "any_conflict ?cals ?ps c ?e"
    by (intro any_conflict_member [of "''You''"]) simp_all
  have c: "\<forall>slot_step_mins work_start work_end cs.
      compute_candidate_slots ?cals parsed slot_step_mins work_start work_end = Some (Inr cs) \<longrightarrow> c \<notin> set cs"
  proof (intro allI impI notI)
    fix slot_step_mins work_start work_end cs
    assume "compute_candidate_slots ?cals parsed slot_step_mins work_start work_end = Some (Inr cs)"
      and "c \<in> set cs"
    then have "\<not> any_conflict ?cals ?ps c ?e" by (rule candidates_conflict_free)
    with conflict show False by contradiction
  qed
  from a b c show ?thesis by (intro conjI)
qed

theorem commit_books_and_excludes_witness:
  "snd (finalize_book scenario1_state scenario1_request (on_day 739256 10 30) ''link'' (on_day 739256 8 0)) = None
   \<and> 0 \<le> duration_mins scenario1_request
   \<and> on_day 739256 10 30 \<in> set (map (\<lambda>i. on_day 739256 10 30 + i * 1800000000) [0..14])
   \<and> compute_candidate_slots scenario1_calendars scenario1_request 30 9 18
       = Some (Inr (map (\<lambda>i. on_day 739256 10 30 + i * 1800000000) [0..14]))
   \<and> compute_candidate_slots
         (sim_calendars (fst (finalize_book scenario1_state scenario1_request (on_day 739256 10 30) ''link'' (on_day 739256 8 0))))
         scenario1_request 30 9 18
       = Some (Inr (map (\<lambda>i. on_day 739256 11 30 + i * 1800000000) [0..12]))
   \<and> on_day 739256 10 30 \<notin> set (map (\<lambda>i. on_day 739256 11 30 + i * 1800000000) [0..12])"
proof -
  have ok: "snd (finalize_book scenario1_state scenario1_request (on_day 739256 10 30) ''link'' (on_day 739256 8 0)) = None"
    by code_simp
  have dur: "0 \<le> duration_mins scenario1_request"
    by (simp add: scenario1_request_def)
  have mem: "on_day 739256 10 30 \<in> set (map (\<lambda>i. on_day 739256 10 30 + i * 1800000000) [0..14])"
    by code_simp
  have before: "compute_candidate_slots scenario1_calendars scenario1_request 30 9 18
       = Some (Inr (map (\<lambda>i. on_day 739256 10 30 + i * 1800000000) [0..14]))"
    by code_simp
  have after: "compute_candidate_slots
         (sim_calendars (fst (finalize_book scenario1_state scenario1_request (on_day 739256 10 30) ''link'' (on_day 739256 8 0))))
         scenario1_request 30 9 18
       = Some (Inr (map (\<lambda>i. on_day 739256 11 30 + i * 1800000000) [0..12]))"
    by code_simp
  from commit_books_and_excludes [OF ok dur] after
  have gone: "on_day 739256 10 30 \<notin> set (map (\<lambda>i. on_day 739256 11 30 + i * 1800000000) [0..12])"
    by blast
  from ok dur mem before after gone show ?thesis by (intro conjI)
qed

text \<open>
  Claim C2 does not hold of the handler: it never looks at the calendars before it writes.
  On the calendars of scenario 1 the slot 09:00 conflicts with the busy interval of \<open>You\<close>,
  yet the commit of that slot raises nothing and appends the interval from 09:00 to 09:30.
\<close>

theorem commit_at_conflicting_slot_succeeds:
  "any_conflict (sim_calendars scenario1_state) (participants scenario1_request @ [''You''])
      (on_day 739256 9 0) (on_day 739256 9 30)
   \<and> snd (finalize_book scenario1_state scenario1_request (on_day 739256 9 0) ''link'' (on_day 739256 8 0)) = None
   \<and> calendar_get (sim_calendars (fst (finalize_book scenario1_state scenario1_request (on_day 739256 9 0) ''link'' (on_day 739256 8 0)))) ''You''
       = [(on_day 739256 9 0, on_day 739256 10 0), (on_day 739256 9 0, on_day 739256 9 30)]"
  by code_simp

text \<open>
  Claim C2, as the handler has it: the commit raises nothing exactly when
  \<^verbatim>\<open>slot + timedelta(minutes=duration_mins)\<close> is a date that \<^verbatim>\<open>datetime\<close> can represent, whatever
  the calendars hold; the only exception it can raise is \<^verbatim>\<open>OverflowError\<close>; and when it raises
  nothing, every calendar afterwards is the calendar before followed by the interval from
  \<open>slot\<close> to \<open>slot + duration\<close>, once for each occurrence of the name in
  \<^verbatim>\<open>parsed['participants'] + ['You']\<close>, which is at least once for every name of that list, also
  when the slot conflicts with an interval that was already there.
\<close>

theorem commit_fails_only_on_overflow:
  "(snd (finalize_book ss parsed slot link now) = None
      \<longleftrightarrow> (\<exists>d e. timedelta_minutes (duration_mins parsed) = Inr d \<and> dt_add slot d = Inr e))
   \<and> (snd (finalize_book ss parsed slot link now) \<noteq> None
      \<longrightarrow> snd (finalize_book ss parsed slot link now) = Some OverflowError)
   \<and> (snd (finalize_book ss parsed slot link now) = None
      \<longrightarrow> (\<forall>p. calendar_get (sim_calendars (fst (finalize_book ss parsed slot link now))) p
                 = calendar_get (sim_calendars ss) p
                   @ replicate (count_list (participants parsed @ [''You'']) p)
                       (slot, slot + duration_mins parsed * 60000000))
          \<and> (\<forall>p \<in> set (participants parsed @ [''You'']).
                 0 < count_list (participants parsed @ [''You'']) p))"
proof -
  let ?F = "finalize_book ss parsed slot link now"
  let ?ps = "participants parsed @ [''You'']"
  have a: "snd ?F = None
      \<longleftrightarrow> (\<exists>d e. timedelta_minutes (duration_mins parsed) = Inr d \<and> dt_add slot d = Inr e)"
    unfolding finalize_book_outcome by (auto split: sum.splits)
  have b: "snd ?F \<noteq> None \<longrightarrow> snd ?F = Some OverflowError"
    unfolding finalize_book_outcome
    by (auto split: sum.splits dest: timedelta_minutes_Inl dt_add_Inl)
  have c: "snd ?F = None \<longrightarrow>
      (\<forall>p. calendar_get (sim_calendars (fst ?F)) p
            = calendar_get (sim_calendars ss) p
              @ replicate (count_list ?ps p) (slot, slot + duration_mins parsed * 60000000))
      \<and> (\<forall>p \<in> set ?ps. 0 < count_list ?ps p)"
  proof (intro impI conjI allI ballI)
    fix p
    assume ok: "snd ?F = None"
    from finalize_book_success [OF ok]
    have cals: "sim_calendars (fst ?F) = mark_busy (sim_calendars ss) ?ps
        slot (slot + duration_mins parsed * 60000000)"
      by simp
    show "calendar_get (sim_calendars (fst ?F)) p
        = calendar_get (sim_calendars ss) p
          @ replicate (count_list ?ps p) (slot, slot + duration_mins parsed * 60000000)"
      unfolding cals by (rule calendar_get_mark_busy)
  next
    fix p
    assume "p \<in> set ?ps"
    then have "count_list ?ps p \<noteq> 0" by (metis count_list_0_iff)
    then show "0 < count_list ?ps p" by (rule neq0_conv [THEN iffD1])
  qed
  from a b c show ?thesis by (intro conjI)
qed

theorem commit_fails_only_on_overflow_witness:
  "any_conflict (sim_calendars scenario1_state) (participants scenario1_request @ [''You''])
      (on_day 739256 9 0) (on_day 739256 9 30)
   \<and> snd (finalize_book scenario1_state scenario1_request (on_day 739256 9 0) ''link'' (on_day 739256 8 0)) = None
   \<and> calendar_get (sim_calendars (fst (finalize_book scenario1_state scenario1_request
                 (on_day 739256 9 0) ''link'' (on_day 739256 8 0)))) ''You''
       = [(on_day 739256 9 0, on_day 739256 10 0), (on_day 739256 9 0, on_day 739256 9 30)]
   \<and> snd (finalize_book scenario1_state scenario1_request (on_day 3652058 23 45) ''link'' (on_day 739256 8 0))
       = Some OverflowError"
proof -
  have conflict: "any_conflict (sim_calendars scenario1_state) (participants scenario1_request @ [''You''])
      (on_day 739256 9 0) (on_day 739256 9 30)"
    by code_simp
  have d: "timedelta_minutes (duration_mins scenario1_request) = Inr 1800000000"
    by code_simp
  have e: "dt_add (on_day 739256 9 0) 1800000000 = Inr (on_day 739256 9 30)"
    by code_simp
  have old: "calendar_get (sim_calendars scenario1_state) ''You''
        @ replicate (count_list (participants scenario1_request @ [''You'']) ''You'')
            (on_day 739256 9 0, on_day 739256 9 0 + duration_mins scenario1_request * 60000000)
      = [(on_day 739256 9 0, on_day 739256 10 0), (on_day 739256 9 0, on_day 739256 9 30)]"
    by code_simp
  have late: "snd (finalize_book scenario1_state scenario1_request (on_day 3652058 23 45) ''link'' (on_day 739256 8 0)) \<noteq> None"
    by code_simp
  note commit = commit_fails_only_on_overflow [of scenario1_state scenario1_request "on_day 739256 9 0" "''link''" "on_day 739256 8 0"]
  note overflow = commit_fails_only_on_overflow [of scenario1_state scenario1_request "on_day 3652058 23 45" "''link''" "on_day 739256 8 0"]
  from commit d e
  have ok: "snd (finalize_book scenario1_state scenario1_request (on_day 739256 9 0) ''link'' (on_day 739256 8 0)) = None"
    by blast
  with commit
  have "calendar_get (sim_calendars (fst (finalize_book scenario1_state scenario1_request
                 (on_day 739256 9 0) ''link'' (on_day 739256 8 0)))) ''You''
       = calendar_get (sim_calendars scenario1_state) ''You''
        @ replicate (count_list (participants scenario1_request @ [''You'']) ''You'')
            (on_day 739256 9 0, on_day 739256 9 0 + duration_mins scenario1_request * 60000000)"
    by blast
  then have booked: "calendar_get (sim_calendars (fst (finalize_book scenario1_state scenario1_request
                 (on_day 739256 9 0) ''link'' (on_day 739256 8 0)))) ''You''
       = [(on_day 739256 9 0, on_day 739256 10 0), (on_day 739256 9 0, on_day 739256 9 30)]"
    by (simp only: old)
  from overflow late
  have fails: "snd (finalize_book scenario1_state scenario1_request (on_day 3652058 23 45) ''link'' (on_day 739256 8 0))
       = Some OverflowError"
    by blast
  from conflict ok booked fails show ?thesis by (intro conjI)
qed

subsection \<open>Requests that ask for nothing\<close>

text \<open>
  The slot finder checks neither the sign of the duration nor the order of the two ends of
  the window. With a positive step of at most a day, a duration of at most a day in either
  direction and dates at least a day after the first and three days before the last date that
  \<^verbatim>\<open>datetime\<close> can represent, no addition overflows and the scan returns a list.
\<close>

lemma slots_loop_returns_list:
  assumes st: "timedelta_minutes slot_step_mins = Inr step" "0 < step"
    and hi: "endt - d + step < 3652059 * 86400000000" "endt + step < 3652059 * 86400000000"
    and cur: "0 \<le> cur" "0 \<le> cur + d" "cur + d < 3652059 * 86400000000"
  shows "\<exists>cs. slots_loop cals ps d endt slot_step_mins work_start work_end cur candidates = Some (Inr cs)"
  using cur
proof (induction "nat (endt - d - cur + 1)" arbitrary: cur candidates rule: less_induct)
  case less
  from less.prems have e: "dt_add cur d = Inr (cur + d)"
    by (simp add: dt_add_def)
  show ?case
  proof (cases "cur + d \<le> endt")
    case False
    with e show ?thesis
      by (subst slots_loop.simps) simp
  next
    case True
    with hi(1) st(2) less.prems have n: "dt_add cur step = Inr (cur + step)"
      by (simp add: dt_add_def)
    from st(2) True have m: "nat (endt - d - (cur + step) + 1) < nat (endt - d - cur + 1)"
      by simp
    from less.prems st(2) have a: "0 \<le> cur + step" "0 \<le> cur + step + d"
      by simp_all
    from True hi(2) have b: "cur + step + d < 3652059 * 86400000000"
      by simp
    from less.hyps [OF m a b] obtain cs where
      "slots_loop cals ps d endt slot_step_mins work_start work_end (cur + step)
         (consider_slot cals ps work_start work_end cur (cur + d) candidates) = Some (Inr cs)"
      by blast
    with e True st(1) n show ?thesis
      by (subst slots_loop.simps) simp
  qed
qed

lemma timedelta_minutes_within_a_day:
  assumes "- 1440 \<le> m" and "m \<le> 1440"
  shows "timedelta_minutes m = Inr (m * 60000000)"
proof -
  from assms have "(- 86400000000 :: int) div 86400000000 \<le> (m * 60000000) div 86400000000"
    by (intro zdiv_mono1) simp_all
  moreover from assms have "(m * 60000000) div 86400000000 \<le> (86400000000 :: int) div 86400000000"
    by (intro zdiv_mono1) simp_all
  ultimately show ?thesis
    by (simp add: timedelta_minutes_def)
qed

lemma day_start_bounds:
  fixes t :: int
  assumes "86400000000 \<le> t"
  shows "86400000000 \<le> (t div 86400000000) * 86400000000" and "(t div 86400000000) * 86400000000 \<le> t"
proof -
  from assms have "(86400000000 :: int) div 86400000000 \<le> t div 86400000000"
    by (intro zdiv_mono1) simp_all
  then have "1 \<le> t div 86400000000" by simp
  then have "1 * 86400000000 \<le> (t div 86400000000) * 86400000000"
    by (intro mult_right_mono) simp_all
  then show "86400000000 \<le> (t div 86400000000) * 86400000000" by simp
  have "(t div 86400000000) * 86400000000 = t - t mod 86400000000"
    by (simp add: minus_mod_eq_div_mult)
  moreover have "0 \<le> t mod 86400000000" by simp
  ultimately show "(t div 86400000000) * 86400000000 \<le> t" by simp
qed

lemma compute_candidate_slots_returns_list:
  assumes step: "0 < slot_step_mins" "slot_step_mins \<le> 1440"
    and dur: "- 1440 \<le> duration_mins parsed" "duration_mins parsed \<le> 1440"
    and ws: "0 \<le> work_start" "work_start \<le> 23"
    and df: "86400000000 \<le> date_from parsed" "date_from parsed < 3652056 * 86400000000"
    and dt: "date_to parsed < 3652056 * 86400000000"
  shows "\<exists>cs. compute_candidate_slots cals parsed slot_step_mins work_start work_end = Some (Inr cs)"
proof -
  define q where "q = (date_from parsed div 86400000000) * 86400000000"
  define d where "d = duration_mins parsed * 60000000"
  define st where "st = slot_step_mins * 60000000"
  define w where "w = work_start * 3600000000"
  from day_start_bounds [OF df(1)] have q: "86400000000 \<le> q" "q \<le> date_from parsed"
    by (simp_all add: q_def)
  from dur have d: "- 86400000000 \<le> d" "d \<le> 86400000000" by (simp_all add: d_def)
  from step have s: "0 < st" "st \<le> 86400000000" by (simp_all add: st_def)
  from ws have w: "0 \<le> w" "w \<le> 82800000000" by (simp_all add: w_def)
  have td: "timedelta_minutes (duration_mins parsed) = Inr d"
    unfolding d_def using dur by (rule timedelta_minutes_within_a_day)
  have ts: "timedelta_minutes slot_step_mins = Inr st"
    unfolding st_def using step by (intro timedelta_minutes_within_a_day) simp_all
  have rh: "replace_hour (date_from parsed) work_start = Inr (q + w)"
    using ws by (simp add: replace_hour_def q_def w_def)
  have "\<exists>cs. slots_loop cals (participants parsed) d (date_to parsed) slot_step_mins
      work_start work_end (q + w) [] = Some (Inr cs)"
    using ts s(1)
  proof (rule slots_loop_returns_list)
    from dt d s show "date_to parsed - d + st < 3652059 * 86400000000" by simp
    from dt s show "date_to parsed + st < 3652059 * 86400000000" by simp
    from q w show "0 \<le> q + w" by simp
    from q w d show "0 \<le> q + w + d" by simp
    from q w d df(2) show "q + w + d < 3652059 * 86400000000" by simp
  qed
  with td rh show ?thesis
    by (simp add: compute_candidate_slots_def)
qed

text \<open>
  Claim C7 does not hold of \<^verbatim>\<open>compute_candidate_slots\<close>: on the calendars of scenario 1, a
  request for 0 minutes between 09:00 and 11:00, and a request for 30 minutes whose window
  starts at 12:00 and ends at 11:30 of the same day, both return the slots 10:30 and 11:00.
\<close>

theorem slot_finder_accepts_invalid_request_example:
  "compute_candidate_slots scenario1_calendars
      (scenario1_request\<lparr>duration_mins := 0, date_to := on_day 739256 11 0\<rparr>) 30 9 18
     = Some (Inr [on_day 739256 10 30, on_day 739256 11 0])
   \<and> compute_candidate_slots scenario1_calendars
      (scenario1_request\<lparr>date_from := on_day 739256 12 0, date_to := on_day 739256 11 30\<rparr>) 30 9 18
     = Some (Inr [on_day 739256 10 30, on_day 739256 11 0])"
  by code_simp

text \<open>
  Claim C7, as the function has it: called with a duration that is not positive, or with a
  window whose end is not after its start, the slot finder raises nothing and returns a list
  of candidates like for any other request (step, duration and dates in the range described
  above, any state of the calendars, any working hours with a start between 0 and 23).
\<close>

theorem slot_finder_never_validates:
  assumes invalid: "duration_mins parsed \<le> 0 \<or> date_to parsed \<le> date_from parsed"
    and step: "0 < slot_step_mins" "slot_step_mins \<le> 1440"
    and dur: "- 1440 \<le> duration_mins parsed" "duration_mins parsed \<le> 1440"
    and ws: "0 \<le> work_start" "work_start \<le> 23"
    and df: "86400000000 \<le> date_from parsed" "date_from parsed < 3652056 * 86400000000"
    and dt: "date_to parsed < 3652056 * 86400000000"
  shows "\<exists>cs. compute_candidate_slots cals parsed slot_step_mins work_start work_end = Some (Inr cs)"
  using step dur ws df dt by (rule compute_candidate_slots_returns_list)

theorem slot_finder_never_validates_witness:
  "duration_mins (scenario1_request\<lparr>duration_mins := 0, date_to := on_day 739256 11 0\<rparr>) \<le> 0
   \<and> (\<exists>cs. compute_candidate_slots scenario1_calendars
          (scenario1_request\<lparr>duration_mins := 0, date_to := on_day 739256 11 0\<rparr>) 30 9 18 = Some (Inr cs))
   \<and> date_to (scenario1_request\<lparr>date_from := on_day 739256 12 0, date_to := on_day 739256 11 30\<rparr>)
       \<le> date_from (scenario1_request\<lparr>date_from := on_day 739256 12 0, date_to := on_day 739256 11 30\<rparr>)
   \<and> (\<exists>cs. compute_candidate_slots scenario1_calendars
          (scenario1_request\<lparr>date_from := on_day 739256 12 0, date_to := on_day 739256 11 30\<rparr>) 30 9 18 = Some (Inr cs))"
proof -
  let ?r1 = "scenario1_request\<lparr>duration_mins := 0, date_to := on_day 739256 11 0\<rparr>"
  let ?r2 = "scenario1_request\<lparr>date_from := on_day 739256 12 0, date_to := on_day 739256 11 30\<rparr>"
  have a1: "duration_mins ?r1 \<le> 0" by simp
  have a2: "date_to ?r2 \<le> date_from ?r2" by (simp add: on_day_def)
  have r1: "\<exists>cs. compute_candidate_slots scenario1_calendars ?r1 30 9 18 = Some (Inr cs)"
    by (rule slot_finder_never_validates) (simp_all add: scenario1_request_def on_day_def)
  have r2: "\<exists>cs. compute_candidate_slots scenario1_calendars ?r2 30 9 18 = Some (Inr cs)"
    by (rule slot_finder_never_validates) (simp_all add: scenario1_request_def on_day_def)
  from a1 r1 a2 r2 show ?thesis by (intro conjI)
qed

subsection \<open>Scenario 1 on any day\<close>

text \<open>
  The scan of scenario 1 visits the half hours 18 to 36 of the day \<open>D\<close> (09:00 to 18:00).
  A slot that starts at half hour \<open>k\<close> ends at half hour \<open>k + 1\<close>; it touches the busy interval
  from half hour 18 to half hour 20 as long as \<open>k \<le> 20\<close>, because the test of line 129 excludes
  an interval only when it ends strictly before the slot starts.
\<close>

lemma hour_half:
  assumes "0 \<le> k" "k < 48"
  shows "hour (D * 86400000000 + k * 1800000000) = k div 2"
proof -
  define q where "q = k div 2"
  define r where "r = k mod 2"
  have k: "k = 2 * q + r" by (simp add: q_def r_def)
  from assms have q: "0 \<le> q" "q \<le> 23" by (simp_all add: q_def)
  have r: "0 \<le> r" "r \<le> 1" by (simp_all add: r_def)
  have a: "D * 86400000000 + k * 1800000000 = D * 86400000000 + q * 3600000000 + r * 1800000000"
    unfolding k by (simp add: distrib_right)
  have b: "hour (D * 86400000000 + q * 3600000000 + r * 1800000000) = q"
    using q
  proof (rule hour_at)
    from r show "0 \<le> r * 1800000000" by simp
    from r show "r * 1800000000 < 3600000000" by simp
  qed
  show ?thesis unfolding a b by (simp only: q_def)
qed

lemma timedelta_minutes_30: "timedelta_minutes 30 = Inr 1800000000"
  by (simp add: timedelta_minutes_def)

lemma dt_add_half_hour:
  assumes "0 \<le> D" "D < 3652059" "0 \<le> k" "k < 47"
  shows "dt_add (D * 86400000000 + k * 1800000000) 1800000000
      = Inr (D * 86400000000 + (k + 1) * 1800000000)"
  using assms by (simp add: dt_add_def distrib_right)

lemma scenario1_slot:
  assumes D: "0 \<le> D" "D < 3652059"
    and you: "cals ''You'' = Some [(D * 86400000000 + 18 * 1800000000, D * 86400000000 + 20 * 1800000000)]"
    and k: "18 \<le> k" "k < 36"
  shows "consider_slot cals [] 9 18 (D * 86400000000 + k * 1800000000)
           (D * 86400000000 + (k + 1) * 1800000000) cands
       = (if k \<le> 20 then cands else cands @ [D * 86400000000 + k * 1800000000])"
proof -
  from k have "hour (D * 86400000000 + k * 1800000000) = k div 2"
    by (intro hour_half) simp_all
  moreover from k have "hour (D * 86400000000 + (k + 1) * 1800000000) = (k + 1) div 2"
    by (intro hour_half) simp_all
  moreover from k have "9 \<le> k div 2" "(k + 1) div 2 \<le> 18" by simp_all
  ultimately have wh: "in_work_hours 9 18 (D * 86400000000 + k * 1800000000)
      (D * 86400000000 + (k + 1) * 1800000000)"
    by (simp add: in_work_hours_def)
  have cf: "any_conflict cals ([] @ [''You'']) (D * 86400000000 + k * 1800000000)
      (D * 86400000000 + (k + 1) * 1800000000) \<longleftrightarrow> k \<le> 20"
    using k by (auto simp add: get_free_busy_for_participant_def calendar_get_def you)
  from wh cf show ?thesis
    by (simp only: consider_slot_def) simp
qed

lemma scenario1_scan:
  assumes D: "0 \<le> D" "D < 3652059"
    and you: "cals ''You'' = Some [(D * 86400000000 + 18 * 1800000000, D * 86400000000 + 20 * 1800000000)]"
    and k: "18 \<le> k" "k \<le> 36"
  shows "slots_loop cals [] 1800000000 (D * 86400000000 + 36 * 1800000000) 30 9 18
           (D * 86400000000 + k * 1800000000) cands
       = Some (Inr (cands @ map (\<lambda>j. D * 86400000000 + j * 1800000000) [max k 21..35]))"
  using k
proof (induction "nat (36 - k)" arbitrary: k cands)
  case 0
  then have k: "k = 36" by simp
  from D have e: "dt_add (D * 86400000000 + k * 1800000000) 1800000000
      = Inr (D * 86400000000 + (k + 1) * 1800000000)"
    unfolding k by (intro dt_add_half_hour) simp_all
  have gt: "\<not> D * 86400000000 + (k + 1) * 1800000000 \<le> D * 86400000000 + 36 * 1800000000"
    unfolding k by simp
  have emp: "[max k 21..35] = []"
    unfolding k by simp
  show ?case
    by (subst slots_loop.simps) (simp only: e gt emp sum.case if_False list.map append_Nil2)
next
  case (Suc n)
  then have k: "18 \<le> k" "k < 36" and n: "n = nat (36 - (k + 1))" by simp_all
  from D k have e: "dt_add (D * 86400000000 + k * 1800000000) 1800000000
      = Inr (D * 86400000000 + (k + 1) * 1800000000)"
    by (intro dt_add_half_hour) simp_all
  from k have le: "D * 86400000000 + (k + 1) * 1800000000 \<le> D * 86400000000 + 36 * 1800000000"
    by simp
  have cs: "consider_slot cals [] 9 18 (D * 86400000000 + k * 1800000000)
           (D * 86400000000 + (k + 1) * 1800000000) cands
       = (if k \<le> 20 then cands else cands @ [D * 86400000000 + k * 1800000000])"
    using D you k by (rule scenario1_slot)
  from k have k1: "18 \<le> k + 1" "k + 1 \<le> 36" by simp_all
  note ih = Suc.hyps(1) [OF n k1]
  have lst: "(if k \<le> 20 then cands else cands @ [D * 86400000000 + k * 1800000000])
        @ map (\<lambda>j. D * 86400000000 + j * 1800000000) [max (k + 1) 21..35]
      = cands @ map (\<lambda>j. D * 86400000000 + j * 1800000000) [max k 21..35]"
  proof (cases "k \<le> 20")
    case True
    then have "max (k + 1) 21 = 21" "max k 21 = 21" by simp_all
    with True show ?thesis by simp
  next
    case False
    with k have "max (k + 1) 21 = k + 1" "max k 21 = k" "[k..35] = k # [k + 1..35]"
      by (simp_all add: upto_rec1)
    with False show ?thesis by simp
  qed
  show ?case
    by (subst slots_loop.simps)
       (simp only: e le timedelta_minutes_30 cs ih lst sum.case if_True)
qed

text \<open>
  Claim C1, as stated: the first candidate of scenario 1 is 10:00. It is not: on 2025-01-06
  the query for \<open>You\<close> between 10:00 and 10:30 returns the busy interval clipped to the single
  instant 10:00, so the slot conflicts, and the list that the slot finder returns starts
  at 10:30.
\<close>

theorem scenario1_ten_o_clock_conflicts:
  "get_free_busy_for_participant scenario1_calendars ''You'' (on_day 739256 10 0) (on_day 739256 10 30)
     = [(on_day 739256 10 0, on_day 739256 10 0)]
   \<and> compute_candidate_slots scenario1_calendars scenario1_request 30 9 18
     = Some (Inr [on_day 739256 10 30, on_day 739256 11 0, on_day 739256 11 30, on_day 739256 12 0,
         on_day 739256 12 30, on_day 739256 13 0, on_day 739256 13 30, on_day 739256 14 0,
         on_day 739256 14 30, on_day 739256 15 0, on_day 739256 15 30, on_day 739256 16 0,
         on_day 739256 16 30, on_day 739256 17 0, on_day 739256 17 30])"
  by code_simp

text \<open>
  Claim C1, amended: on every day \<open>D\<close> that \<^verbatim>\<open>datetime\<close> can represent, with the calendar of
  \<open>You\<close> holding exactly the interval from 09:00 to 10:00 of that day, the request for 30
  minutes between 09:00 and 18:00 with no participant returns the slots from 10:30 to 17:30
  in steps of 30 minutes; the first candidate is 10:30.
\<close>

theorem scenario1_first_candidate:
  assumes D: "0 \<le> D" "D < 3652059"
    and you: "cals ''You'' = Some [(on_day D 9 0, on_day D 10 0)]"
  shows "compute_candidate_slots cals
           \<lparr>participants = [], duration_mins = 30, date_from = on_day D 9 0,
            date_to = on_day D 18 0, title = t\<rparr> 30 9 18
       = Some (Inr (on_day D 10 30 # map (\<lambda>i. on_day D 11 0 + i * 1800000000) [0..13]))"
proof -
  have you': "cals ''You'' = Some [(D * 86400000000 + 18 * 1800000000, D * 86400000000 + 20 * 1800000000)]"
    using you by (simp add: on_day_def)
  have scan: "slots_loop cals [] 1800000000 (D * 86400000000 + 36 * 1800000000) 30 9 18
           (D * 86400000000 + 18 * 1800000000) []
       = Some (Inr ([] @ map (\<lambda>j. D * 86400000000 + j * 1800000000) [max 18 21..35]))"
    using D you' by (rule scenario1_scan) simp_all
  have lst: "[] @ map (\<lambda>j. D * 86400000000 + j * 1800000000) [max 18 21..35]
      = on_day D 10 30 # map (\<lambda>i. on_day D 11 0 + i * 1800000000) [0..13]"
  proof -
    have "[0..13] = 0 # 1 # [2..13::int]"
      by (simp add: upto_rec1)
    then show ?thesis
      by (simp add: on_day_def upto_rec_numeral)
  qed
  have "(9 * 3600000000 + D * 86400000000) div (86400000000::int) = D + (9 * 3600000000) div 86400000000"
    by (rule div_mult_self1) simp
  then have "on_day D 9 0 div 86400000000 = D"
    by (simp add: on_day_def add.commute)
  then have cur0: "replace_hour (on_day D 9 0) 9 = Inr (D * 86400000000 + 18 * 1800000000)"
    by (simp add: replace_hour_def)
  have endt: "on_day D 18 0 = D * 86400000000 + 36 * 1800000000"
    by (simp add: on_day_def)
  show ?thesis
    unfolding compute_candidate_slots_def
    by (simp only: meeting_request.select_convs timedelta_minutes_30 sum.case cur0 endt scan lst)
qed

theorem scenario1_first_candidate_witness:
  "(0::int) \<le> 739256 \<and> (739256::int) < 3652059
   \<and> scenario1_calendars ''You'' = Some [(on_day 739256 9 0, on_day 739256 10 0)]
   \<and> compute_candidate_slots scenario1_calendars
           \<lparr>participants = [], duration_mins = 30, date_from = on_day 739256 9 0,
            date_to = on_day 739256 18 0, title = ''Meeting''\<rparr> 30 9 18
       = Some (Inr (on_day 739256 10 30 # map (\<lambda>i. on_day 739256 11 0 + i * 1800000000) [0..13]))"
proof -
  have a: "(0::int) \<le> 739256" by simp
  have b: "(739256::int) < 3652059" by simp
  have c: "scenario1_calendars ''You'' = Some [(on_day 739256 9 0, on_day 739256 10 0)]"
    by (simp add: scenario1_calendars_def)
  have d: "compute_candidate_slots scenario1_calendars
           \<lparr>participants = [], duration_mins = 30, date_from = on_day 739256 9 0,
            date_to = on_day 739256 18 0, title = ''Meeting''\<rparr> 30 9 18
       = Some (Inr (on_day 739256 10 30 # map (\<lambda>i. on_day 739256 11 0 + i * 1800000000) [0..13]))"
    using a b c by (rule scenario1_first_candidate)
  from a b c d show ?thesis
    by (intro conjI)
qed

end
